theory Spec2Isabelle
  imports Complex_Main "HOL-Library.Word" "HOL-Library.Log_Nat"
begin

section \<open>The benchmark driver of bencharch\_footer.cpp\<close>

text \<open>
  The file holds one function, \<open>main\<close>. It parses up to three arguments, builds the
  kernel under test, calls it 50 times untimed, then \<open>N\<close> times timed, sorts the
  timings and prints the mean of a percentile window of them.

  Conventions of the embedding:
  \<^item> \<open>size_t\<close> is a 64-bit word (\<open>-\<close> wraps around) and \<open>long\<close> is an \<open>int\<close> between
    \<open>LONG_MIN\<close> and \<open>LONG_MAX\<close> (LP64);
  \<^item> a \<open>double\<close> is an IEEE 754 binary64 value: a finite double is the real number it
    denotes, and every arithmetic operation rounds its exact result to the nearest
    double, ties to even (\<open>dround\<close>). The two zeros are not told apart;
  \<^item> \<open>measurements[i]\<close> with \<open>i\<close> outside the vector is undefined behaviour in C++ and
    is the value \<open>Inl OutOfBounds\<close> here; a division by a zero \<open>sample_size\<close> is
    \<open>Inl DivByZero\<close>; the conversion of a NaN to \<open>size_t\<close> is \<open>Inl BadCast\<close>.
\<close>

subsection \<open>Doubles\<close>

text \<open>The nearest integer, a tie going to the even one.\<close>

definition round_half_even :: "real \<Rightarrow> int" where
  "round_half_even y =
     (let f = \<lfloor>y\<rfloor>; d = y - of_int f
      in if d < 1 / 2 then f else if d > 1 / 2 then f + 1 else if even f then f else f + 1)"

text \<open>
  The exponent \<open>e\<close> of the binade \<open>[2^e, 2^(e+1))\<close> that holds \<open>x \<ge> 0\<close>, and \<open>-1022\<close> for
  every \<open>x\<close> below \<open>2^(-1022)\<close>, where the doubles are subnormal. It is read off the
  number of bits of \<open>x\<close> scaled by \<open>2^1074\<close>.
\<close>

definition binade :: "real \<Rightarrow> int" where
  "binade x = max (bitlen \<lfloor>x * 2 ^ 1074\<rfloor> - 1075) (- 1022)"

text \<open>
  Rounding of \<open>x \<ge> 0\<close> to 53 significant bits: the doubles of the binade \<open>e\<close> are the
  multiples of \<open>2^(e-52)\<close>.
\<close>

definition round_mag :: "real \<Rightarrow> real" where
  "round_mag x =
     of_int (round_half_even (x / 2 powi (binade x - 52))) * 2 powi (binade x - 52)"

definition dround :: "real \<Rightarrow> real" where
  "dround x = (if x < 0 then - round_mag (- x) else round_mag x)"


datatype double = Finite real | PlusInf | MinusInf | NaN

text \<open>The double for an exact result: beyond the largest double it is an infinity.\<close>

definition to_double :: "real \<Rightarrow> double" where
  "to_double x =
     (let r = dround x
      in if r \<ge> 2 ^ 1024 then PlusInf else if r \<le> - (2 ^ 1024) then MinusInf else Finite r)"

text \<open>\<open>a + b\<close> on doubles.\<close>

fun dadd :: "double \<Rightarrow> double \<Rightarrow> double" where
  "dadd (Finite a) (Finite b) = to_double (a + b)"
| "dadd NaN b = NaN"
| "dadd a NaN = NaN"
| "dadd PlusInf MinusInf = NaN"
| "dadd MinusInf PlusInf = NaN"
| "dadd PlusInf b = PlusInf"
| "dadd a PlusInf = PlusInf"
| "dadd MinusInf b = MinusInf"
| "dadd a MinusInf = MinusInf"

text \<open>\<open>a / b\<close> and \<open>a * b\<close> on doubles, for a finite \<open>b > 0\<close>: the source divides by
  \<open>sample_size\<close>, which is at least 1, and multiplies by 1000.\<close>

fun ddiv_pos :: "double \<Rightarrow> real \<Rightarrow> double" where
  "ddiv_pos (Finite a) b = to_double (a / b)"
| "ddiv_pos PlusInf b = PlusInf"
| "ddiv_pos MinusInf b = MinusInf"
| "ddiv_pos NaN b = NaN"

fun dmul_pos :: "double \<Rightarrow> real \<Rightarrow> double" where
  "dmul_pos (Finite a) b = to_double (a * b)"
| "dmul_pos PlusInf b = PlusInf"
| "dmul_pos MinusInf b = MinusInf"
| "dmul_pos NaN b = NaN"

text \<open>\<open>a < b\<close> and \<open>a <= b\<close> on doubles: every comparison with a NaN is false.\<close>

fun dlt :: "double \<Rightarrow> double \<Rightarrow> bool" where
  "dlt (Finite a) (Finite b) \<longleftrightarrow> a < b"
| "dlt NaN b \<longleftrightarrow> False"
| "dlt a NaN \<longleftrightarrow> False"
| "dlt a MinusInf \<longleftrightarrow> False"
| "dlt PlusInf b \<longleftrightarrow> False"
| "dlt MinusInf b \<longleftrightarrow> True"
| "dlt a PlusInf \<longleftrightarrow> True"

definition dle :: "double \<Rightarrow> double \<Rightarrow> bool" where
  "dle a b \<longleftrightarrow> dlt a b \<or> (a = b \<and> a \<noteq> NaN)"

subsection \<open>The estimator (lines 121 to 140)\<close>

type_synonym size_t = "64 word"

datatype fault = OutOfBounds | DivByZero | BadCast

text \<open>\<open>measurements.size()\<close>\<close>

definition vsize :: "real list \<Rightarrow> size_t" where
  "vsize m = of_nat (length m)"

text \<open>
  \<open>static_cast<size_t>(x)\<close> for a finite double \<open>x\<close>: the fractional part is dropped. The
  source only casts values between 0 and \<open>LONG_MAX\<close>.
\<close>

definition to_size_t :: "real \<Rightarrow> size_t" where
  "to_size_t x = word_of_int (if x < 0 then \<lceil>x\<rceil> else \<lfloor>x\<rfloor>)"

text \<open>
  The double \<open>(measurements.size() * percentile) / 100.0\<close> of lines 125 and 126, with
  \<open>sz\<close> the value of \<open>measurements.size()\<close>: the size is converted to double, then the
  product and the quotient are rounded. The percentile is a finite double that has
  passed the checks of lines 46 and 64, so nothing overflows here.
\<close>

definition index_value :: "size_t \<Rightarrow> real \<Rightarrow> real" where
  "index_value sz percentile =
     dround (dround (dround (real_of_int (uint sz)) * percentile) / 100)"

text \<open>Lines 125 and 126: \<open>static_cast<size_t>((measurements.size() * percentile) / 100.0)\<close>\<close>

definition raw_index :: "size_t \<Rightarrow> real \<Rightarrow> size_t" where
  "raw_index sz percentile = to_size_t (index_value sz percentile)"

text \<open>
  Line 129: \<open>if (upper_index >= measurements.size()) upper_index = measurements.size() - 1;\<close>
\<close>

definition clamp_upper :: "size_t \<Rightarrow> size_t \<Rightarrow> size_t" where
  "clamp_upper sz upper_index = (if upper_index \<ge> sz then sz - 1 else upper_index)"

text \<open>
  Line 130:
  \<open>if (lower_index >= upper_index) lower_index = upper_index > 0 ? upper_index - 1 : 0;\<close>
\<close>

definition adjust_lower :: "size_t \<Rightarrow> size_t \<Rightarrow> size_t" where
  "adjust_lower lower_index upper_index =
     (if lower_index \<ge> upper_index
      then (if upper_index > 0 then upper_index - 1 else 0)
      else lower_index)"

text \<open>Lines 132 and 133.\<close>

definition force_size :: "size_t \<Rightarrow> size_t \<Rightarrow> size_t" where
  "force_size lower_index upper_index =
     (let sample_size = upper_index - lower_index
      in if sample_size < 1 then 1 else sample_size)"

text \<open>The three values as the source has them after line 133.\<close>

definition upper_index :: "size_t \<Rightarrow> real \<Rightarrow> size_t" where
  "upper_index sz upper_percentile = clamp_upper sz (raw_index sz upper_percentile)"

definition lower_index :: "size_t \<Rightarrow> real \<Rightarrow> real \<Rightarrow> size_t" where
  "lower_index sz lower_percentile upper_percentile =
     adjust_lower (raw_index sz lower_percentile) (upper_index sz upper_percentile)"

definition sample_size :: "size_t \<Rightarrow> real \<Rightarrow> real \<Rightarrow> size_t" where
  "sample_size sz lower_percentile upper_percentile =
     force_size (lower_index sz lower_percentile upper_percentile)
                (upper_index sz upper_percentile)"

text \<open>
  Lines 136 to 139: \<open>for (size_t i = lower_index; i < upper_index; i++) sum += measurements[i];\<close>
  The loop stops at the first read outside the vector; \<open>acc\<close> is the variable \<open>sum\<close>, and
  each \<open>+=\<close> rounds.
\<close>

function sum_loop :: "real list \<Rightarrow> size_t \<Rightarrow> size_t \<Rightarrow> double \<Rightarrow> fault + double" where
  "sum_loop m i upper acc =
     (if i < upper
      then (if unat i < length m
            then sum_loop m (i + 1) upper (dadd acc (Finite (m ! unat i)))
            else Inl OutOfBounds)
      else Inr acc)"
  by pat_completeness auto
termination
proof (relation "measure (\<lambda>(m, i, upper, acc). unat upper - unat i)")
  show "wf (measure (\<lambda>(m, i, upper, acc). unat upper - unat i))"
    by simp
next
  fix m :: "real list" and i upper :: size_t and acc :: double
  assume "i < upper"
  then have "unat upper - unat (i + 1) < unat upper - unat i"
    by unat_arith
  then show "((m, i + 1, upper, dadd acc (Finite (m ! unat i))), (m, i, upper, acc))
      \<in> measure (\<lambda>(m, i, upper, acc). unat upper - unat i)"
    by simp
qed

declare sum_loop.simps [simp del]

text \<open>
  Line 140: \<open>double result = sum / sample_size;\<close> The divisor is \<open>sample_size\<close> converted
  to double.
\<close>

definition divide_by_size :: "double \<Rightarrow> size_t \<Rightarrow> fault + double" where
  "divide_by_size acc sz =
     (if sz = 0 then Inl DivByZero
      else Inr (ddiv_pos acc (dround (real_of_int (uint sz)))))"

text \<open>
  Lines 122 to 140 on the vector \<open>measurements\<close> of finite doubles. \<open>std::sort\<close> sorts it
  in place, so the sorted vector is returned with the result.
\<close>

definition estimator :: "real list \<Rightarrow> real \<Rightarrow> real \<Rightarrow> real list \<times> (fault + double)" where
  "estimator measurements lower_percentile upper_percentile =
     (let m = sort measurements;
          upper = upper_index (vsize m) upper_percentile;
          lower = lower_index (vsize m) lower_percentile upper_percentile;
          n = sample_size (vsize m) lower_percentile upper_percentile
      in (m, case sum_loop m lower upper (Finite 0) of
               Inl f \<Rightarrow> Inl f
             | Inr acc \<Rightarrow> divide_by_size acc n))"

text \<open>The samples the loop adds up, in the order it reads them.\<close>

definition window :: "real list \<Rightarrow> size_t \<Rightarrow> size_t \<Rightarrow> real list" where
  "window m lower upper = map (\<lambda>i. m ! i) [unat lower ..< unat upper]"

subsection \<open>The sampler (lines 104 to 119)\<close>

text \<open>
  What \<open>main\<close> takes from outside the file: the macro \<open>NBITERATIONS\<close>, the C library's
  \<open>strtol\<close> (base 10) and \<open>strtod\<close>, the class \<open>mydsp\<close>, the clock and the allocator. The
  kernel state \<open>'k\<close> stands for the \<open>mydsp\<close> object together with its input and output
  buffers. \<open>clock_reading k\<close> is what the \<open>k\<close>-th call of \<open>high_resolution_clock::now()\<close>
  returns, in ticks of the clock; \<open>to_seconds t\<close> is the \<open>count()\<close> of \<open>t\<close> ticks converted to
  \<open>std::chrono::duration<double>\<close>, a finite double of seconds. \<open>max_size\<close> is
  \<open>measurements.max_size()\<close>, and \<open>can_allocate n\<close> tells whether the allocator provides
  storage for \<open>n\<close> doubles.
\<close>

record strtol_result =
  sl_val :: int
  sl_endptr :: nat  \<comment> \<open>characters consumed: \<open>endptr == nptr\<close> is \<open>sl_endptr = 0\<close>\<close>
  sl_errno :: int

record strtod_result =
  sd_val :: double
  sd_endptr :: nat
  sd_errno :: int

record 'k env =
  NBITERATIONS :: int
  strtol :: "string \<Rightarrow> strtol_result"
  strtod :: "string \<Rightarrow> strtod_result"
  dsp_new :: 'k
  dsp_init :: "int \<Rightarrow> 'k \<Rightarrow> 'k"
  dsp_compute :: "'k \<Rightarrow> 'k"
  clock_reading :: "nat \<Rightarrow> int"
  to_seconds :: "int \<Rightarrow> real"
  max_size :: size_t
  can_allocate :: "size_t \<Rightarrow> bool"

datatype event = Compute | Now

record 'k world =
  dsp :: 'k
  trace :: "event list"  \<comment> \<open>the kernel calls and clock readings so far, oldest first\<close>

definition invocations :: "'k world \<Rightarrow> nat" where
  "invocations w = length (filter (\<lambda>ev. ev = Compute) (trace w))"

definition clock_reads :: "'k world \<Rightarrow> nat" where
  "clock_reads w = length (filter (\<lambda>ev. ev = Now) (trace w))"

text \<open>\<open>d->compute(NBSAMPLES, inputs, outputs)\<close>\<close>

definition compute :: "'k env \<Rightarrow> 'k world \<Rightarrow> 'k world" where
  "compute e w = w\<lparr>dsp := dsp_compute e (dsp w), trace := trace w @ [Compute]\<rparr>"

text \<open>\<open>std::chrono::high_resolution_clock::now()\<close>: the reading and the world after it.\<close>

definition now :: "'k env \<Rightarrow> 'k world \<Rightarrow> int \<times> 'k world" where
  "now e w = (clock_reading e (clock_reads w), w\<lparr>trace := trace w @ [Now]\<rparr>)"

text \<open>Lines 105 to 107: \<open>for (int i = 0; i < 50; i++) d->compute(...)\<close>\<close>

function warmup :: "'k env \<Rightarrow> int \<Rightarrow> 'k world \<Rightarrow> 'k world" where
  "warmup e i w = (if i < 50 then warmup e (i + 1) (compute e w) else w)"
  by pat_completeness auto
termination
  by (relation "measure (\<lambda>(e, i, w). nat (50 - i))") auto

declare warmup.simps [simp del]

text \<open>
  Lines 113 to 119: \<open>for (long i = 0; i < N; i++)\<close>, one timed call per round and one
  \<open>push_back\<close> of the seconds between the two readings. The capacity is reserved, so no
  \<open>push_back\<close> allocates.
\<close>

function collect ::
  "'k env \<Rightarrow> int \<Rightarrow> int \<Rightarrow> 'k world \<times> real list \<Rightarrow> 'k world \<times> real list" where
  "collect e N i (w, measurements) =
     (if i < N
      then (let (start, w1) = now e w;
                w2 = compute e w1;
                (end, w3) = now e w2;
                duration = to_seconds e (end - start)
            in collect e N (i + 1) (w3, measurements @ [duration]))
      else (w, measurements))"
  by pat_completeness auto
termination
  by (relation "measure (\<lambda>(e, N, i, s). nat (N - i))") auto

declare collect.simps [simp del]

text \<open>An uncaught exception: \<open>std::terminate\<close> ends the process.\<close>

datatype abort = Length_error | Bad_alloc

text \<open>
  Line 111: \<open>measurements.reserve(N)\<close> takes a \<open>size_t\<close>, so a negative \<open>N\<close> arrives as a
  value of at least \<open>2^63\<close>. Above \<open>max_size()\<close> it throws \<open>std::length_error\<close>; a request
  for storage the allocator cannot provide throws \<open>std::bad_alloc\<close>. The vector is empty,
  so \<open>reserve(0)\<close> allocates nothing.
\<close>

definition reserve :: "'k env \<Rightarrow> int \<Rightarrow> abort option" where
  "reserve e N =
     (let n = (word_of_int N :: size_t)
      in if n > max_size e then Some Length_error
         else if n > 0 \<and> \<not> can_allocate e n then Some Bad_alloc
         else None)"

text \<open>Lines 104 to 119.\<close>

definition sampler :: "'k env \<Rightarrow> int \<Rightarrow> 'k world \<Rightarrow> 'k world \<times> (abort + real list)" where
  "sampler e N w =
     (let w1 = warmup e 0 w
      in case reserve e N of
           Some a \<Rightarrow> (w1, Inl a)
         | None \<Rightarrow>
             (let (w2, measurements) = collect e N 0 (w1, []) in (w2, Inr measurements)))"

subsection \<open>The function main\<close>

definition LONG_MAX :: int where "LONG_MAX = 2 ^ 63 - 1"
definition LONG_MIN :: int where "LONG_MIN = - (2 ^ 63)"
definition ERANGE :: int where "ERANGE = 34"

text \<open>The lines written to \<open>std::cerr\<close>, each with the argument it quotes.\<close>

datatype message =
    Usage string int
  | Conversion_error string
  | No_digits_were_found string
  | Invalid_upper_percentile string
  | Upper_percentile_must_be_between_0_and_100
  | Invalid_lower_percentile string
  | Lower_percentile_must_be_between_0_and_100
  | Lower_percentile_must_be_less_than_upper_percentile

text \<open>Lines 18 to 34; \<open>args\<close> is \<open>argv\<close> without \<open>argv[0]\<close>, so \<open>argc = 1 + length args\<close>.\<close>

definition parse_iterations :: "'k env \<Rightarrow> string list \<Rightarrow> message + int" where
  "parse_iterations e args =
     (if 1 + length args \<ge> 2
      then (let r = strtol e (args ! 0); val = sl_val r
            in if (sl_errno r = ERANGE \<and> (val = LONG_MAX \<or> val = LONG_MIN))
                  \<or> (sl_errno r \<noteq> 0 \<and> val = 0)
               then Inl (Conversion_error (args ! 0))
               else if sl_endptr r = 0 then Inl (No_digits_were_found (args ! 0))
               else Inr val)
      else Inr (NBITERATIONS e))"

text \<open>Lines 36 to 52: \<open>val <= 0.0 || val > 100.0\<close> is false for a NaN.\<close>

definition parse_upper :: "'k env \<Rightarrow> string list \<Rightarrow> message + double" where
  "parse_upper e args =
     (if 1 + length args \<ge> 3
      then (let r = strtod e (args ! 1); val = sd_val r
            in if sd_errno r \<noteq> 0 \<or> sd_endptr r = 0
               then Inl (Invalid_upper_percentile (args ! 1))
               else if dle val (Finite 0) \<or> dlt (Finite 100) val
               then Inl Upper_percentile_must_be_between_0_and_100
               else Inr val)
      else Inr (Finite 10))"

text \<open>Lines 54 to 70: \<open>val < 0.0 || val >= 100.0\<close> is false for a NaN.\<close>

definition parse_lower :: "'k env \<Rightarrow> string list \<Rightarrow> message + double" where
  "parse_lower e args =
     (if 1 + length args \<ge> 4
      then (let r = strtod e (args ! 2); val = sd_val r
            in if sd_errno r \<noteq> 0 \<or> sd_endptr r = 0
               then Inl (Invalid_lower_percentile (args ! 2))
               else if dlt val (Finite 0) \<or> dle (Finite 100) val
               then Inl Lower_percentile_must_be_between_0_and_100
               else Inr val)
      else Inr (Finite 1))"

datatype outcome =
    Exit int  \<comment> \<open>\<open>return\<close> from \<open>main\<close> with this status\<close>
  | Terminated abort
  | Undefined_behaviour fault

record 'k run =
  outcome :: outcome
  stderr :: "message list"
  stdout :: "(string \<times> double) list"  \<comment> \<open>\<open>argv[0]\<close> and \<open>result * 1000\<close> of line 143\<close>
  final :: "'k world option"  \<comment> \<open>the kernel and its trace, once the kernel exists\<close>

definition reject :: "message \<Rightarrow> 'k run" where
  "reject msg = \<lparr>outcome = Exit 1, stderr = [msg], stdout = [], final = None\<rparr>"

text \<open>
  Lines 122 to 140 with the percentiles as \<open>main\<close> holds them. A percentile that passed
  the checks is finite or a NaN; with a NaN the conversion of line 125 or 126 is
  undefined.
\<close>

definition estimate :: "real list \<Rightarrow> double \<Rightarrow> double \<Rightarrow> fault + double" where
  "estimate measurements lower_percentile upper_percentile =
     (case (lower_percentile, upper_percentile) of
        (Finite l, Finite u) \<Rightarrow> snd (estimator measurements l u)
      | _ \<Rightarrow> Inl BadCast)"

text \<open>
  Lines 77 to 154, with \<open>N\<close> and the two percentiles as parsed. \<open>new mydsp()\<close> is taken
  to succeed; the buffers of lines 85 to 102 and their release belong to the kernel state.
\<close>

definition benchmark :: "'k env \<Rightarrow> string \<Rightarrow> int \<Rightarrow> double \<Rightarrow> double \<Rightarrow> 'k run" where
  "benchmark e argv0 N upper_percentile lower_percentile =
     (let w = \<lparr>dsp = dsp_init e 44100 (dsp_new e), trace = []\<rparr>
      in case sampler e N w of
           (w1, Inl a) \<Rightarrow>
             \<lparr>outcome = Terminated a, stderr = [], stdout = [], final = Some w1\<rparr>
         | (w1, Inr measurements) \<Rightarrow>
             (case estimate measurements lower_percentile upper_percentile of
                Inl f \<Rightarrow>
                  \<lparr>outcome = Undefined_behaviour f, stderr = [], stdout = [],
                   final = Some w1\<rparr>
              | Inr result \<Rightarrow>
                  \<lparr>outcome = Exit 0, stderr = [], stdout = [(argv0, dmul_pos result 1000)],
                   final = Some w1\<rparr>))"

text \<open>
  The whole of \<open>main\<close>, on \<open>argv = argv0 # args\<close>. The checks come in the source's
  order; each failed one writes its line and returns 1. Line 72,
  \<open>lower_percentile >= upper_percentile\<close>, is false when either is a NaN.
\<close>

definition main :: "'k env \<Rightarrow> string \<Rightarrow> string list \<Rightarrow> 'k run" where
  "main e argv0 args =
     (if 1 + length args > 4 then reject (Usage argv0 (NBITERATIONS e))
      else case parse_iterations e args of
        Inl msg \<Rightarrow> reject msg
      | Inr N \<Rightarrow>
          (case parse_upper e args of
             Inl msg \<Rightarrow> reject msg
           | Inr upper_percentile \<Rightarrow>
               (case parse_lower e args of
                  Inl msg \<Rightarrow> reject msg
                | Inr lower_percentile \<Rightarrow>
                    if dle upper_percentile lower_percentile
                    then reject Lower_percentile_must_be_less_than_upper_percentile
                    else benchmark e argv0 N upper_percentile lower_percentile)))"

text \<open>The number of kernel calls a run has made.\<close>

definition kernel_calls :: "'k run \<Rightarrow> nat" where
  "kernel_calls r = (case final r of None \<Rightarrow> 0 | Some w \<Rightarrow> invocations w)"

subsection \<open>The algorithm of the specification, section 4.2\<close>

text \<open>
  The seven steps as the specification words them, on natural numbers, with the product
  and the quotient of step 2, the sum of step 6 and the quotient of step 7 carried out on
  doubles, from left to right. Step 2: \<open>floor(N * percentile / 100)\<close>.
\<close>

definition spec_floor_index :: "nat \<Rightarrow> real \<Rightarrow> nat" where
  "spec_floor_index N percentile =
     nat \<lfloor>dround (dround (dround (real N) * percentile) / 100)\<rfloor>"

text \<open>Step 3: clamp \<open>upperIndex\<close> to \<open>N - 1\<close> if it reaches or exceeds \<open>N\<close>.\<close>

definition spec_upperIndex :: "nat \<Rightarrow> real \<Rightarrow> nat" where
  "spec_upperIndex N upperPercentile =
     (let upperIndex = spec_floor_index N upperPercentile
      in if upperIndex \<ge> N then N - 1 else upperIndex)"

text \<open>
  Step 4: if \<open>lowerIndex >= upperIndex\<close>, set \<open>lowerIndex = upperIndex - 1\<close> if
  \<open>upperIndex > 0\<close>, else \<open>lowerIndex = 0\<close>.
\<close>

definition spec_lowerIndex :: "nat \<Rightarrow> real \<Rightarrow> real \<Rightarrow> nat" where
  "spec_lowerIndex N lowerPercentile upperPercentile =
     (let lowerIndex = spec_floor_index N lowerPercentile;
          upperIndex = spec_upperIndex N upperPercentile
      in if lowerIndex \<ge> upperIndex
         then (if upperIndex > 0 then upperIndex - 1 else 0)
         else lowerIndex)"

text \<open>Step 5: \<open>sampleSize = upperIndex - lowerIndex\<close>; if this is 0, force it to 1.\<close>

definition spec_sampleSize :: "nat \<Rightarrow> real \<Rightarrow> real \<Rightarrow> nat" where
  "spec_sampleSize N lowerPercentile upperPercentile =
     (let sampleSize = spec_upperIndex N upperPercentile
                       - spec_lowerIndex N lowerPercentile upperPercentile
      in if sampleSize = 0 then 1 else sampleSize)"

text \<open>
  Steps 1, 6 and 7: sort ascending, sum the sorted samples over the half-open index range
  \<open>[lowerIndex, upperIndex)\<close>, divide by \<open>sampleSize\<close>.
\<close>

definition spec_estimator :: "real list \<Rightarrow> real \<Rightarrow> real \<Rightarrow> double" where
  "spec_estimator samples lowerPercentile upperPercentile =
     (let sorted_samples = sort samples;
          N = length samples;
          lowerIndex = spec_lowerIndex N lowerPercentile upperPercentile;
          upperIndex = spec_upperIndex N upperPercentile;
          total = foldl (\<lambda>acc i. dadd acc (Finite (sorted_samples ! i))) (Finite 0)
                    [lowerIndex ..< upperIndex]
      in ddiv_pos total (dround (real (spec_sampleSize N lowerPercentile upperPercentile))))"

subsection \<open>An environment to run main in\<close>

text \<open>
  \<open>strtol\<close> with base 10, after ISO C 7.22.1.4: white space, an optional sign, then the
  digits; without a digit nothing is converted, the value is 0 and \<open>endptr\<close> is \<open>nptr\<close>.
\<close>

definition isspace :: "char \<Rightarrow> bool" where
  "isspace c \<longleftrightarrow> c \<in> set [CHR '' '', CHR 0x09, CHR 0x0A, CHR 0x0B, CHR 0x0C, CHR 0x0D]"

definition isdigit :: "char \<Rightarrow> bool" where
  "isdigit c \<longleftrightarrow> c \<in> set ''0123456789''"

definition digits_value :: "string \<Rightarrow> int" where
  "digits_value ds = foldl (\<lambda>a c. 10 * a + (int (of_char c) - 48)) 0 ds"

text \<open>An optional sign: whether it is a minus, and the rest.\<close>

definition take_sign :: "string \<Rightarrow> bool \<times> string" where
  "take_sign s =
     (case s of
        [] \<Rightarrow> (False, [])
      | c # cs \<Rightarrow> if c = CHR ''-'' then (True, cs)
                  else if c = CHR ''+'' then (False, cs)
                  else (False, s))"

text \<open>A value outside \<open>long\<close> is reported as \<open>LONG_MAX\<close> or \<open>LONG_MIN\<close> with \<open>ERANGE\<close>.\<close>

definition strtol_base10 :: "string \<Rightarrow> strtol_result" where
  "strtol_base10 nptr =
     (let (neg, s) = take_sign (dropWhile isspace nptr);
          ds = takeWhile isdigit s;
          v = (if neg then - digits_value ds else digits_value ds);
          consumed = length nptr - length s + length ds
      in if ds = [] then \<lparr>sl_val = 0, sl_endptr = 0, sl_errno = 0\<rparr>
         else if v > LONG_MAX then \<lparr>sl_val = LONG_MAX, sl_endptr = consumed, sl_errno = ERANGE\<rparr>
         else if v < LONG_MIN then \<lparr>sl_val = LONG_MIN, sl_endptr = consumed, sl_errno = ERANGE\<rparr>
         else \<lparr>sl_val = v, sl_endptr = consumed, sl_errno = 0\<rparr>)"

text \<open>
  An environment for runs on concrete arguments: \<open>strtol\<close> as above and any \<open>strtod\<close>, a
  kernel without state, a clock that counts nanoseconds and advances by a microsecond per
  reading, the \<open>max_size()\<close> of \<open>std::vector<double>\<close> in libstdc++, an allocator that
  never fails, and 1000 for \<open>NBITERATIONS\<close>.
\<close>

definition plain_env :: "(string \<Rightarrow> strtod_result) \<Rightarrow> unit env" where
  "plain_env sd =
     \<lparr>NBITERATIONS = 1000, strtol = strtol_base10, strtod = sd,
      dsp_new = (), dsp_init = (\<lambda>rate k. k), dsp_compute = (\<lambda>k. k),
      clock_reading = (\<lambda>k. 1000 * int k),
      to_seconds = (\<lambda>t. dround (dround (of_int t) / 1000000000)),
      max_size = 2 ^ 60 - 1, can_allocate = (\<lambda>n. True)\<rparr>"

subsection \<open>Two doubles\<close>

text \<open>The doubles nearest to 18.4 and to 0.1.\<close>

definition d18_4 :: real where
  "d18_4 = 2589569785738035 / 2 ^ 47"

definition d0_1 :: real where
  "d0_1 = 3602879701896397 / 2 ^ 55"

section \<open>Properties of the rounding\<close>

subsection \<open>Rounding is monotone\<close>

lemma rhe_cases: "round_half_even y = \<lfloor>y\<rfloor> \<or> round_half_even y = \<lfloor>y\<rfloor> + 1"
  by (simp add: round_half_even_def Let_def)

lemma rhe_of_int [simp]: "round_half_even (of_int k) = k"
  by (simp add: round_half_even_def)

lemma rhe_mono: "y \<le> z \<Longrightarrow> round_half_even y \<le> round_half_even z"
proof -
  assume le: "y \<le> z"
  then have fl: "\<lfloor>y\<rfloor> \<le> \<lfloor>z\<rfloor>" by (rule floor_mono)
  show ?thesis
  proof (cases "\<lfloor>y\<rfloor> = \<lfloor>z\<rfloor>")
    case True
    with le show ?thesis by (auto simp: round_half_even_def Let_def)
  next
    case False
    with fl have "\<lfloor>y\<rfloor> + 1 \<le> \<lfloor>z\<rfloor>" by simp
    moreover have "round_half_even y \<le> \<lfloor>y\<rfloor> + 1" using rhe_cases [of y] by auto
    moreover have "\<lfloor>z\<rfloor> \<le> round_half_even z" using rhe_cases [of z] by auto
    ultimately show ?thesis by simp
  qed
qed

lemma binade_ge: "- 1022 \<le> binade x"
  by (simp add: binade_def)

lemma binade_mono: "x \<le> y \<Longrightarrow> binade x \<le> binade y"
proof -
  assume "x \<le> y"
  then have "\<lfloor>x * 2 ^ 1074\<rfloor> \<le> \<lfloor>y * 2 ^ 1074\<rfloor>"
    by (intro floor_mono mult_right_mono) simp_all
  then have "bitlen \<lfloor>x * 2 ^ 1074\<rfloor> \<le> bitlen \<lfloor>y * 2 ^ 1074\<rfloor>"
    by (simp add: bitlen_def floorlog_mono nat_mono)
  then show ?thesis by (simp add: binade_def)
qed

lemma binade_upper:
  assumes "0 \<le> x"
  shows "x < 2 powi (binade x + 1)"
proof -
  define n where "n = \<lfloor>x * 2 ^ 1074\<rfloor>"
  have n0: "0 \<le> n" using assms by (simp add: n_def)
  have "n < 2 ^ nat (bitlen n)"
  proof (cases "n = 0")
    case True then show ?thesis by simp
  next
    case False
    with n0 have "0 < n" by simp
    then show ?thesis using bitlen_bounds by blast
  qed
  then have "n + 1 \<le> 2 ^ nat (bitlen n)" by simp
  moreover have "x * 2 ^ 1074 < of_int (n + 1)"
    unfolding n_def by linarith
  ultimately have "x * 2 ^ 1074 < of_int (2 ^ nat (bitlen n))"
    by (meson less_le_trans of_int_le_iff)
  then have "x * 2 ^ 1074 < 2 powi (bitlen n)"
    using bitlen_nonneg [of n] by (simp add: power_int_def)
  then have "x < 2 powi (bitlen n) / 2 ^ 1074"
    by (simp add: pos_less_divide_eq)
  also have "\<dots> = 2 powi (bitlen n - 1074)"
    by (simp add: power_int_diff)
  also have "\<dots> \<le> 2 powi (binade x + 1)"
    by (intro power_int_increasing) (simp_all add: binade_def n_def)
  finally show ?thesis .
qed

lemma binade_lower:
  assumes "- 1022 < binade x"
  shows "2 powi (binade x) \<le> x"
proof -
  define n where "n = \<lfloor>x * 2 ^ 1074\<rfloor>"
  from assms have b: "binade x = bitlen n - 1075" and big: "1 \<le> bitlen n - 1"
    by (auto simp: binade_def n_def max_def split: if_splits)
  then have "0 < n" using bitlen_eq_zero_iff [of n] by (cases "n \<le> 0") auto
  then have "2 ^ nat (bitlen n - 1) \<le> n" using bitlen_bounds by blast
  then have "(2::real) ^ nat (bitlen n - 1) \<le> of_int n"
    by (metis of_int_le_iff of_int_numeral of_int_power)
  also have "of_int n \<le> x * 2 ^ 1074" by (simp add: n_def)
  finally have "2 powi (bitlen n - 1) \<le> x * 2 ^ 1074"
    using big by (simp add: power_int_def)
  then have "2 powi (bitlen n - 1) / 2 ^ 1074 \<le> x"
    by (simp add: pos_divide_le_eq)
  moreover have "2 powi (bitlen n - 1) / 2 ^ 1074 = (2::real) powi (bitlen n - 1 - 1074)"
    by (simp add: power_int_diff)
  ultimately show ?thesis by (simp add: b)
qed

lemma binade_eqI:
  assumes "2 powi e \<le> x" "x < 2 powi (e + 1)" "- 1022 \<le> e"
  shows "binade x = e"
proof (rule antisym)
  have x0: "0 \<le> x" using assms(1) by (meson order_trans zero_le_numeral zero_le_power_int)
  show "binade x \<le> e"
  proof (rule ccontr)
    assume "\<not> binade x \<le> e"
    then have lt: "e + 1 \<le> binade x" by simp
    with assms(3) have "- 1022 < binade x" by simp
    then have "2 powi (binade x) \<le> x" by (rule binade_lower)
    moreover have "(2::real) powi (e + 1) \<le> 2 powi (binade x)"
      using lt by (intro power_int_increasing) simp_all
    ultimately show False using assms(2) by simp
  qed
  show "e \<le> binade x"
  proof (rule ccontr)
    assume "\<not> e \<le> binade x"
    then have "binade x + 1 \<le> e" by simp
    then have "(2::real) powi (binade x + 1) \<le> 2 powi e"
      by (intro power_int_increasing) simp_all
    with binade_upper [OF x0] assms(1) show False by simp
  qed
qed

lemma pow2_shift: "(2::real) ^ n * 2 powi k = 2 powi (k + int n)"
  using power_int_add [of "2::real" k "int n"] by (simp add: mult.commute)

lemma rhe_power2 [simp]: "round_half_even (2 ^ n) = 2 ^ n"
  using rhe_of_int [of "2 ^ n"] by simp

lemma round_mag_zero [simp]: "round_mag 0 = 0"
  by (simp add: round_mag_def round_half_even_def)

lemma round_mag_mono:
  assumes "0 \<le> x" "x \<le> y"
  shows "round_mag x \<le> round_mag y"
proof (cases "binade x = binade y")
  case True
  have "x / 2 powi (binade y - 52) \<le> y / 2 powi (binade y - 52)"
    using assms(2) by (intro divide_right_mono) simp_all
  then have "round_half_even (x / 2 powi (binade y - 52))
      \<le> round_half_even (y / 2 powi (binade y - 52))"
    by (rule rhe_mono)
  then show ?thesis
    by (simp add: round_mag_def True mult_right_mono)
next
  case False
  with binade_mono [OF assms(2)] have lt: "binade x + 1 \<le> binade y" by simp
  have y0: "0 \<le> y" using assms by simp
  have "- 1022 < binade y" using lt binade_ge [of x] by simp
  then have ylow: "2 powi (binade y) \<le> y" by (rule binade_lower)
  have xup: "x < 2 powi (binade x + 1)" using assms(1) by (rule binade_upper)
  \<comment> \<open>the rounded x stays at or below the top of its binade\<close>
  have "x / 2 powi (binade x - 52) \<le> 2 powi (binade x + 1) / 2 powi (binade x - 52)"
    using xup by (intro divide_right_mono) simp_all
  also have "2 powi (binade x + 1) / 2 powi (binade x - 52) = (2::real) powi 53"
    by (simp flip: power_int_diff)
  finally have "round_half_even (x / 2 powi (binade x - 52)) \<le> round_half_even (2 ^ 53)"
    by (intro rhe_mono) simp
  then have "round_half_even (x / 2 powi (binade x - 52)) \<le> 2 ^ 53"
    by (simp only: rhe_power2)
  then have "of_int (round_half_even (x / 2 powi (binade x - 52))) \<le> (2::real) ^ 53"
    by (metis of_int_le_iff of_int_numeral of_int_power)
  then have "round_mag x \<le> 2 ^ 53 * 2 powi (binade x - 52)"
    unfolding round_mag_def by (intro mult_right_mono) simp_all
  also have "\<dots> = 2 powi (binade x + 1)"
    by (simp only: pow2_shift) (simp add: add.commute)
  also have "\<dots> \<le> 2 powi (binade y)"
    using lt by (intro power_int_increasing) simp_all
  \<comment> \<open>the rounded y stays at or above the bottom of its binade\<close>
  also have "\<dots> \<le> round_mag y"
  proof -
    have "2 powi (binade y) / 2 powi (binade y - 52) \<le> y / 2 powi (binade y - 52)"
      using ylow by (intro divide_right_mono) simp_all
    moreover have "2 powi (binade y) / 2 powi (binade y - 52) = (2::real) powi 52"
      by (simp flip: power_int_diff)
    ultimately have "round_half_even (2 ^ 52)
        \<le> round_half_even (y / 2 powi (binade y - 52))"
      by (intro rhe_mono) simp
    then have "2 ^ 52 \<le> round_half_even (y / 2 powi (binade y - 52))"
      by (simp only: rhe_power2)
    then have "(2::real) ^ 52 \<le> of_int (round_half_even (y / 2 powi (binade y - 52)))"
      by (metis of_int_le_iff of_int_numeral of_int_power)
    then have "2 ^ 52 * 2 powi (binade y - 52) \<le> round_mag y"
      unfolding round_mag_def by (intro mult_right_mono) simp_all
    moreover have "2 ^ 52 * 2 powi (binade y - 52) = (2::real) powi (binade y)"
      by (simp only: pow2_shift) simp
    ultimately show ?thesis by simp
  qed
  finally show ?thesis .
qed

lemma round_mag_nonneg: "0 \<le> x \<Longrightarrow> 0 \<le> round_mag x"
  using round_mag_mono [of 0 x] by simp

lemma dround_zero [simp]: "dround 0 = 0"
  by (simp add: dround_def)

lemma dround_mono: "x \<le> y \<Longrightarrow> dround x \<le> dround y"
proof -
  assume le: "x \<le> y"
  consider "0 \<le> x" | "x < 0" "y < 0" | "x < 0" "0 \<le> y" by linarith
  then show ?thesis
  proof cases
    case 1
    with le show ?thesis by (simp add: dround_def round_mag_mono)
  next
    case 2
    with le have "round_mag (- y) \<le> round_mag (- x)" by (intro round_mag_mono) simp_all
    with 2 show ?thesis by (simp add: dround_def)
  next
    case 3
    then have "0 \<le> round_mag (- x)" and "0 \<le> round_mag y"
      by (simp_all add: round_mag_nonneg)
    with 3 show ?thesis by (simp add: dround_def)
  qed
qed

lemma dround_nonneg: "0 \<le> x \<Longrightarrow> 0 \<le> dround x"
  using dround_mono [of 0 x] by simp

subsection \<open>Rounding leaves the doubles as they are\<close>

lemma pow2_less_imp_exp_less:
  "(2::real) powi a < 2 powi b \<Longrightarrow> a < b"
proof (rule ccontr)
  assume lt: "(2::real) powi a < 2 powi b" and "\<not> a < b"
  then have "b \<le> a" by simp
  then have "(2::real) powi b \<le> 2 powi a" by (intro power_int_increasing) simp_all
  with lt show False by simp
qed

lemma round_mag_exact:
  assumes "0 \<le> m" "m < 2 ^ 53" "- 1074 \<le> k"
  shows "round_mag (of_int m * 2 powi k) = of_int m * 2 powi k"
proof -
  define x :: real where "x = of_int m * 2 powi k"
  define e where "e = binade x"
  have x0: "0 \<le> x" using assms(1) by (simp add: x_def)
  have "e - 52 \<le> k"
  proof (cases "- 1022 < e")
    case True
    then have "2 powi e \<le> x" unfolding e_def by (rule binade_lower)
    also have "x < 2 ^ 53 * 2 powi k"
      unfolding x_def using assms(2)
      by (intro mult_strict_right_mono) (simp_all add: of_int_less_iff [of m "2 ^ 53", where ?'a = real, simplified])
    also have "\<dots> = 2 powi (k + 53)"
      by (simp only: pow2_shift) simp
    finally have "e < k + 53" by (rule pow2_less_imp_exp_less)
    then show ?thesis by simp
  next
    case False
    with binade_ge [of x] have "e = - 1022" by (simp add: e_def)
    with assms(3) show ?thesis by simp
  qed
  then obtain j :: nat where j: "k = e - 52 + int j"
    by (metis add.commute diff_add_cancel nonneg_int_cases diff_ge_0_iff_ge)
  have "x = of_int (m * 2 ^ j) * 2 powi (e - 52)"
    by (simp add: x_def j pow2_shift [symmetric] mult.assoc)
  moreover from this have "x / 2 powi (e - 52) = of_int (m * 2 ^ j)"
    by simp
  ultimately have "round_mag x = x"
    unfolding round_mag_def e_def [symmetric] by (simp only: rhe_of_int)
  then show ?thesis by (simp add: x_def)
qed

lemma dround_exact:
  assumes "\<bar>m\<bar> < 2 ^ 53" "- 1074 \<le> k"
  shows "dround (of_int m * 2 powi k) = of_int m * 2 powi k"
proof (cases "0 \<le> m")
  case True
  then have "0 \<le> of_int m * (2::real) powi k" by simp
  then show ?thesis
    using True assms by (simp add: dround_def round_mag_exact not_less [symmetric])
next
  case False
  then have neg: "of_int m * (2::real) powi k < 0"
    by (simp add: mult_neg_pos)
  have "round_mag (of_int (- m) * 2 powi k) = of_int (- m) * 2 powi k"
    using False assms by (intro round_mag_exact) simp_all
  then show ?thesis using neg by (simp add: dround_def)
qed

lemma dround_of_int: "\<bar>m\<bar> < 2 ^ 53 \<Longrightarrow> dround (of_int m) = of_int m"
  using dround_exact [of m 0] by simp

lemma dround_of_nat: "n < 2 ^ 53 \<Longrightarrow> dround (of_nat n) = of_nat n"
  using dround_of_int [of "int n"] by simp

lemma dround_numeral [simp]:
  "(numeral n :: int) < 2 ^ 53 \<Longrightarrow> dround (numeral n) = numeral n"
  using dround_of_int [of "numeral n"] by simp

lemma dround_one [simp]: "dround 1 = 1"
  using dround_of_int [of 1] by simp

lemma dround_dyadic:
  "\<bar>m\<bar> < 2 ^ 53 \<Longrightarrow> j \<le> 1074 \<Longrightarrow> dround (of_int m / 2 ^ j) = of_int m / 2 ^ j"
  using dround_exact [of m "- int j"] by (simp add: power_int_minus field_simps)

lemma dround_pow2_scaled:
  "\<bar>m\<bar> < 2 ^ 53 \<Longrightarrow> dround (of_int m * 2 ^ j) = of_int m * 2 ^ j"
  using dround_exact [of m "int j"] by simp

lemma floor_dround:
  assumes "of_int k \<le> x" "x \<le> b" "dround b = b" "b < of_int k + 1" "\<bar>k\<bar> < 2 ^ 53"
  shows "\<lfloor>dround x\<rfloor> = k"
proof -
  have "of_int k \<le> dround x"
    using dround_mono [OF assms(1)] assms(5) by (simp add: dround_of_int)
  moreover have "dround x \<le> b"
    using dround_mono [OF assms(2)] assms(3) by simp
  ultimately show ?thesis using assms(4) by linarith
qed

lemma floor_dround_small: "0 \<le> x \<Longrightarrow> x \<le> 1 / 2 \<Longrightarrow> \<lfloor>dround x\<rfloor> = 0"
  using floor_dround [of 0 x "1 / 2"] dround_dyadic [of 1 1] by simp

section \<open>Properties of the estimator\<close>

subsection \<open>Words and natural numbers\<close>

lemma unat_vsize: "length m < 2 ^ 64 \<Longrightarrow> unat (vsize m) = length m"
  by (simp add: vsize_def unat_of_nat)

lemma index_value_nat:
  "index_value sz p = dround (dround (dround (real (unat sz)) * p) / 100)"
  by (simp add: index_value_def)

lemma size_double_nonneg: "0 \<le> dround (real (unat sz))"
  by (intro dround_nonneg of_nat_0_le_iff)

lemma index_value_nonneg: "0 \<le> p \<Longrightarrow> 0 \<le> index_value sz p"
  unfolding index_value_nat
  by (intro dround_nonneg divide_nonneg_nonneg mult_nonneg_nonneg size_double_nonneg)
    simp_all

lemma index_value_le:
  assumes "unat sz < 2 ^ 63" "p \<le> 100"
  shows "index_value sz p \<le> 2 ^ 63"
proof -
  have two63: "dround (2 ^ 63) = 2 ^ 63"
    using dround_pow2_scaled [of 1 63] by simp
  have big: "dround (100 * 2 ^ 63) = 100 * 2 ^ 63"
    using dround_pow2_scaled [of 25 65] by simp
  have "real (unat sz) \<le> 2 ^ 63"
    using assms(1) by (metis less_imp_le of_nat_le_iff of_nat_numeral of_nat_power)
  then have s: "dround (real (unat sz)) \<le> 2 ^ 63"
    using dround_mono two63 by metis
  have s0: "0 \<le> dround (real (unat sz))" by (rule size_double_nonneg)
  have "dround (real (unat sz)) * p \<le> dround (real (unat sz)) * 100"
    using assms(2) s0 by (intro mult_left_mono)
  also have "\<dots> \<le> 2 ^ 63 * 100"
    using s by (intro mult_right_mono) simp_all
  finally have "dround (real (unat sz)) * p \<le> 100 * 2 ^ 63"
    by (simp add: mult.commute)
  then have "dround (dround (real (unat sz)) * p) \<le> dround (100 * 2 ^ 63)"
    by (rule dround_mono)
  also have "\<dots> = 100 * 2 ^ 63" by (rule big)
  finally have "dround (dround (real (unat sz)) * p) / 100 \<le> 2 ^ 63"
    by simp
  then have "index_value sz p \<le> dround (2 ^ 63)"
    unfolding index_value_nat by (rule dround_mono)
  then show ?thesis by (simp only: two63)
qed

lemma index_value_mono: "p \<le> q \<Longrightarrow> index_value sz p \<le> index_value sz q"
  unfolding index_value_nat
  by (intro dround_mono divide_right_mono mult_left_mono size_double_nonneg) simp_all

lemma unat_to_size_t:
  assumes "0 \<le> x" "x \<le> 2 ^ 63"
  shows "unat (to_size_t x) = nat \<lfloor>x\<rfloor>"
proof -
  have "\<lfloor>x\<rfloor> \<le> 2 ^ 63" using assms(2) by (simp add: floor_le_iff)
  moreover have "0 \<le> \<lfloor>x\<rfloor>" using assms(1) by simp
  ultimately have "unat (word_of_int \<lfloor>x\<rfloor> :: size_t) = nat \<lfloor>x\<rfloor>"
    by (simp add: unat_eq_nat_uint uint_word_of_int take_bit_int_eq_self)
  then show ?thesis using assms(1) by (simp add: to_size_t_def)
qed

lemma unat_raw_index:
  assumes "unat sz < 2 ^ 63" "0 \<le> p" "p \<le> 100"
  shows "unat (raw_index sz p) = spec_floor_index (unat sz) p"
proof -
  have "unat (raw_index sz p) = nat \<lfloor>index_value sz p\<rfloor>"
    unfolding raw_index_def using assms
    by (intro unat_to_size_t index_value_nonneg index_value_le)
  then show ?thesis
    by (simp only: index_value_nat spec_floor_index_def)
qed

lemma sum_loop_in_range:
  "i \<le> upper \<Longrightarrow> unat upper \<le> length m \<Longrightarrow>
   sum_loop m i upper acc =
     Inr (foldl (\<lambda>a x. dadd a (Finite x)) acc (take (unat upper - unat i) (drop (unat i) m)))"
proof (induction m i upper acc rule: sum_loop.induct)
  case (1 m i upper acc)
  show ?case
  proof (cases "i < upper")
    case False
    with "1.prems" have "i = upper" by simp
    then show ?thesis using False by (simp add: sum_loop.simps [of m upper upper acc])
  next
    case True
    then have lt: "unat i < unat upper" by (simp add: word_less_nat_alt)
    with "1.prems" have inr: "unat i < length m" by simp
    from True have suc: "unat (i + 1) = Suc (unat i)" by unat_arith
    from True have le: "i + 1 \<le> upper" by (rule inc_le)
    have step: "sum_loop m i upper acc
        = sum_loop m (i + 1) upper (dadd acc (Finite (m ! unat i)))"
      using True inr by (simp add: sum_loop.simps [of m i upper acc])
    have split: "take (unat upper - unat i) (drop (unat i) m)
        = m ! unat i # take (unat upper - Suc (unat i)) (drop (Suc (unat i)) m)"
      using lt inr by (metis Cons_nth_drop_Suc Suc_diff_Suc take_Suc_Cons)
    show ?thesis
      using "1.IH" [OF True inr le "1.prems"(2)] step split suc by simp
  qed
qed

lemma unat_clamp_upper:
  "sz \<noteq> 0 \<Longrightarrow> unat (clamp_upper sz a) = (if unat a \<ge> unat sz then unat sz - 1 else unat a)"
  by (simp add: clamp_upper_def word_le_nat_alt unat_minus_one)

lemma unat_adjust_lower:
  "unat (adjust_lower b a) =
     (if unat b \<ge> unat a then (if unat a > 0 then unat a - 1 else 0) else unat b)"
  by (simp add: adjust_lower_def word_le_nat_alt word_gt_0 unat_minus_one unat_gt_0)

lemma adjust_lower_le: "adjust_lower b a \<le> a"
  by (simp add: word_le_nat_alt unat_adjust_lower)

lemma unat_force_size:
  "b \<le> a \<Longrightarrow> unat (force_size b a) = (if unat a - unat b = 0 then 1 else unat a - unat b)"
  by (simp add: force_size_def Let_def word_less_1 unat_sub flip: unat_0_iff)

lemma force_size_nonzero: "force_size b a \<noteq> 0"
  by (simp add: force_size_def Let_def word_less_1)

lemma clamp_upper_less: "sz \<noteq> 0 \<Longrightarrow> unat (clamp_upper sz a) < unat sz"
  by (simp add: unat_clamp_upper unat_gt_0)

lemma unat_upper_index:
  "sz \<noteq> 0 \<Longrightarrow> unat sz < 2 ^ 63 \<Longrightarrow> 0 \<le> u \<Longrightarrow> u \<le> 100 \<Longrightarrow>
   unat (upper_index sz u) = spec_upperIndex (unat sz) u"
  by (simp add: upper_index_def unat_clamp_upper unat_raw_index spec_upperIndex_def Let_def)

lemma unat_lower_index:
  "sz \<noteq> 0 \<Longrightarrow> unat sz < 2 ^ 63 \<Longrightarrow> 0 \<le> l \<Longrightarrow> l \<le> 100 \<Longrightarrow> 0 \<le> u \<Longrightarrow> u \<le> 100 \<Longrightarrow>
   unat (lower_index sz l u) = spec_lowerIndex (unat sz) l u"
  by (simp add: lower_index_def unat_adjust_lower unat_upper_index unat_raw_index
      spec_lowerIndex_def Let_def)

lemma lower_le_upper: "lower_index sz l u \<le> upper_index sz u"
  by (simp add: lower_index_def adjust_lower_le)

lemma unat_sample_size:
  "sz \<noteq> 0 \<Longrightarrow> unat sz < 2 ^ 63 \<Longrightarrow> 0 \<le> l \<Longrightarrow> l \<le> 100 \<Longrightarrow> 0 \<le> u \<Longrightarrow> u \<le> 100 \<Longrightarrow>
   unat (sample_size sz l u) = spec_sampleSize (unat sz) l u"
  by (simp add: sample_size_def unat_force_size lower_le_upper unat_lower_index
      unat_upper_index spec_sampleSize_def Let_def)

lemma upper_index_less: "sz \<noteq> 0 \<Longrightarrow> unat (upper_index sz u) < unat sz"
  by (simp add: upper_index_def clamp_upper_less)

lemma sample_size_nonzero: "sample_size sz l u \<noteq> 0"
  by (simp add: sample_size_def force_size_nonzero)

lemma vsize_sort: "vsize (sort m) = vsize m"
  by (simp add: vsize_def)

lemma vsize_nonzero: "m \<noteq> [] \<Longrightarrow> length m < 2 ^ 64 \<Longrightarrow> vsize m \<noteq> 0"
  using unat_vsize [of m] by (auto simp flip: unat_0_iff)

lemma map_nth_upt_take_drop:
  "b \<le> length xs \<Longrightarrow> map ((!) xs) [a..<b] = take (b - a) (drop a xs)"
  by (rule nth_equalityI) auto

lemma window_take_drop:
  "unat upper \<le> length m \<Longrightarrow>
   window m lower upper = take (unat upper - unat lower) (drop (unat lower) m)"
  by (simp add: window_def map_nth_upt_take_drop)

text \<open>The result of the estimator on a vector that is not empty.\<close>

lemma estimator_window:
  assumes "m \<noteq> []" "length m < 2 ^ 64"
  shows "estimator m l u =
     (sort m,
      Inr (ddiv_pos
             (foldl (\<lambda>a x. dadd a (Finite x)) (Finite 0)
                (window (sort m) (lower_index (vsize m) l u) (upper_index (vsize m) u)))
             (dround (real (unat (sample_size (vsize m) l u))))))"
proof -
  have "unat (upper_index (vsize m) u) < unat (vsize m)"
    using assms by (intro upper_index_less vsize_nonzero)
  then have "unat (upper_index (vsize m) u) \<le> length (sort m)"
    using assms(2) by (simp add: unat_vsize)
  then show ?thesis
    by (simp add: estimator_def Let_def vsize_sort sum_loop_in_range lower_le_upper
        divide_by_size_def sample_size_nonzero window_take_drop)
qed

lemma estimator_spec:
  assumes "m \<noteq> []" "length m < 2 ^ 63" "0 \<le> l" "l \<le> 100" "0 \<le> u" "u \<le> 100"
  shows "estimator m l u = (sort m, Inr (spec_estimator m l u))"
proof -
  have len64: "length m < 2 ^ 64" using assms(2) by simp
  have nz: "vsize m \<noteq> 0" using assms(1) len64 by (intro vsize_nonzero)
  have len: "unat (vsize m) = length m" using len64 by (intro unat_vsize)
  have b: "unat (vsize m) < 2 ^ 63" using assms(2) len by simp
  show ?thesis
    using assms nz b
    by (simp add: estimator_window len64 spec_estimator_def Let_def unat_upper_index
        unat_lower_index unat_sample_size len window_def foldl_map)
qed

subsection \<open>Facts about the indices of the specification\<close>

lemma spec_floor_index_mono:
  assumes "p \<le> q"
  shows "spec_floor_index N p \<le> spec_floor_index N q"
proof -
  have "0 \<le> dround (real N)" by (intro dround_nonneg of_nat_0_le_iff)
  then have "dround (dround (dround (real N) * p) / 100)
      \<le> dround (dround (dround (real N) * q) / 100)"
    using assms by (intro dround_mono divide_right_mono mult_left_mono) simp_all
  then show ?thesis
    unfolding spec_floor_index_def by (intro nat_mono floor_mono)
qed

lemma spec_upperIndex_mono:
  "p \<le> q \<Longrightarrow> spec_upperIndex N p \<le> spec_upperIndex N q"
  using spec_floor_index_mono [of p q N] by (auto simp: spec_upperIndex_def Let_def)

lemma spec_sampleSize_alt:
  "spec_sampleSize N l u =
     (if spec_floor_index N l < spec_upperIndex N u
      then spec_upperIndex N u - spec_floor_index N l else 1)"
  by (auto simp: spec_sampleSize_def spec_lowerIndex_def Let_def)

lemma spec_sampleSize_mono:
  assumes "l2 \<le> l1" "u1 \<le> u2"
  shows "spec_sampleSize N l1 u1 \<le> spec_sampleSize N l2 u2"
  using spec_floor_index_mono [OF assms(1), of N] spec_upperIndex_mono [OF assms(2), of N]
  by (auto simp: spec_sampleSize_alt)

subsection \<open>Evaluation on concrete inputs\<close>

lemma dround_not_negative [simp]: "0 \<le> x \<Longrightarrow> \<not> dround x < 0"
  using dround_nonneg [of x] by simp

lemmas window_defs =
  sample_size_def force_size_def lower_index_def upper_index_def adjust_lower_def
  clamp_upper_def raw_index_def to_size_t_def index_value_def vsize_def

section \<open>The claims\<close>

text \<open>
  Claim C7. For a vector of at least one sample (\<open>sz\<close> is its size, not 0 and, as the
  iteration count is a \<open>long\<close>, below \<open>2^63\<close>) and two valid bands \<open>(l1, u1)\<close> and
  \<open>(l2, u2)\<close> with \<open>l2 \<le> l1\<close> and \<open>u1 \<le> u2\<close>, the sample size the estimator divides by,
  after clamping, adjustment and forcing to at least 1, is for the wider band at least
  what it is for the narrower one.
\<close>

theorem sample_size_widening:
  assumes "sz \<noteq> 0" "unat sz < 2 ^ 63" "0 \<le> l2" "l2 \<le> l1" "l1 < u1" "u1 \<le> u2" "u2 < 100"
  shows "sample_size sz l1 u1 \<le> sample_size sz l2 u2"
proof -
  have "unat (sample_size sz l1 u1) = spec_sampleSize (unat sz) l1 u1"
    using assms by (intro unat_sample_size) simp_all
  moreover have "unat (sample_size sz l2 u2) = spec_sampleSize (unat sz) l2 u2"
    using assms by (intro unat_sample_size) simp_all
  ultimately show ?thesis
    using spec_sampleSize_mono [OF assms(4) assms(6), of "unat sz"]
    by (simp add: word_le_nat_alt)
qed

theorem sample_size_widening_witness:
  "(8 :: size_t) \<noteq> 0 \<and> unat (8 :: size_t) < 2 ^ 63
   \<and> (0::real) \<le> 25 \<and> (25::real) \<le> 50 \<and> (50::real) < 75 \<and> (75::real) \<le> 75
   \<and> (75::real) < 100 \<and> sample_size 8 50 75 = 2 \<and> sample_size 8 25 75 = 4
   \<and> sample_size 8 50 75 \<le> sample_size 8 25 75"
  using sample_size_widening [of 8 25 50 75 75]
  by (simp add: window_defs word_le_nat_alt word_less_nat_alt)

text \<open>
  Claim C1. For a vector of \<open>N \<ge> 1\<close> samples and a band with
  \<open>0 \<le> lower < upper < 100\<close>, the estimator returns a result, so that no read of the
  summation loop was outside the vector and the divisor was not zero: every index from
  \<open>lower_index\<close> up to but excluding \<open>upper_index\<close> is below \<open>N\<close>, and \<open>sample_size\<close>
  is not 0.
\<close>

theorem estimator_in_bounds:
  assumes "1 \<le> length m" "length m < 2 ^ 64" "0 \<le> l" "l < u" "u < 100"
  shows "(\<exists>r. snd (estimator m l u) = Inr r)
       \<and> (\<forall>i. lower_index (vsize m) l u \<le> i \<and> i < upper_index (vsize m) u
              \<longrightarrow> unat i < length m)
       \<and> sample_size (vsize m) l u \<noteq> 0"
proof -
  from assms(1) have ne: "m \<noteq> []" by auto
  have "unat (upper_index (vsize m) u) < unat (vsize m)"
    using ne assms(2) by (intro upper_index_less vsize_nonzero)
  then have up: "unat (upper_index (vsize m) u) < length m"
    using assms(2) by (simp add: unat_vsize)
  have "unat i < length m" if "i < upper_index (vsize m) u" for i
    using that up by (simp add: word_less_nat_alt)
  then show ?thesis
    using ne assms(2) by (simp add: estimator_window sample_size_nonzero)
qed

theorem estimator_in_bounds_witness:
  "1 \<le> length [1, 2, 3, 4 :: real] \<and> length [1, 2, 3, 4 :: real] < 2 ^ 64
   \<and> (0::real) \<le> 25 \<and> (25::real) < 75 \<and> (75::real) < 100
   \<and> (\<exists>r. snd (estimator [1, 2, 3, 4] 25 75) = Inr r)
   \<and> sample_size (vsize [1, 2, 3, 4]) 25 75 \<noteq> 0"
  using estimator_in_bounds [of "[1, 2, 3, 4]" 25 75] by simp

subsection \<open>The empty window\<close>

lemma adjust_lower_eq_upper: "adjust_lower b a = a \<Longrightarrow> a = 0"
proof -
  assume "adjust_lower b a = a"
  then have "unat (adjust_lower b a) = unat a" by simp
  then have "unat a = 0" by (simp add: unat_adjust_lower split: if_splits)
  then show "a = 0" by (simp add: unat_0_iff)
qed

lemma sum_loop_empty: "sum_loop m i i acc = Inr acc"
  by (simp add: sum_loop.simps [of m i i acc])

lemma to_double_zero [simp]: "to_double 0 = Finite 0"
  by (simp add: to_double_def)

lemma divide_zero: "sz \<noteq> 0 \<Longrightarrow> divide_by_size (Finite 0) sz = Inr (Finite 0)"
  by (simp add: divide_by_size_def)

lemma empty_window_result:
  assumes "lower_index (vsize m) l u = upper_index (vsize m) u"
  shows "snd (estimator m l u) = Inr (Finite 0)"
  using assms
  by (simp add: estimator_def Let_def vsize_sort sum_loop_empty divide_zero
      sample_size_nonzero)

text \<open>
  Claim C10. For a vector of \<open>N \<ge> 1\<close> samples and a valid band, when the adjusted window
  is empty (\<open>lower_index = upper_index\<close>) both indices are 0, the loop adds no term and
  the result is 0, whatever the samples are.
\<close>

theorem empty_window_gives_zero:
  assumes "1 \<le> length m" "length m < 2 ^ 64" "0 \<le> l" "l < u" "u < 100"
    and "lower_index (vsize m) l u = upper_index (vsize m) u"
  shows "lower_index (vsize m) l u = 0 \<and> upper_index (vsize m) u = 0
       \<and> snd (estimator m l u) = Inr (Finite 0)"
proof -
  from assms(6) have up: "upper_index (vsize m) u = 0"
    unfolding lower_index_def by (rule adjust_lower_eq_upper)
  with assms(6) have lo: "lower_index (vsize m) l u = 0" by simp
  show ?thesis
    using up lo empty_window_result [OF assms(6)] by simp
qed

lemma one_sample_indices:
  "lower_index (vsize [x]) 1 10 = 0 \<and> upper_index (vsize [x]) 10 = 0
   \<and> sample_size (vsize [x]) 1 10 = 1"
  by (simp add: window_defs floor_dround_small)

lemma five_samples_indices:
  "lower_index (vsize [x1, x2, x3, x4, x5]) 1 5 = 0
   \<and> upper_index (vsize [x1, x2, x3, x4, x5]) 5 = 0
   \<and> sample_size (vsize [x1, x2, x3, x4, x5]) 1 5 = 1"
  by (simp add: window_defs floor_dround_small)

theorem empty_window_gives_zero_witness:
  "1 \<le> length [5::real] \<and> length [5::real] < 2 ^ 64 \<and> (0::real) \<le> 1 \<and> (1::real) < 10
   \<and> (10::real) < 100
   \<and> lower_index (vsize [5]) 1 10 = upper_index (vsize [5]) 10
   \<and> lower_index (vsize [5]) 1 10 = 0 \<and> upper_index (vsize [5]) 10 = 0
   \<and> snd (estimator [5] 1 10) = Inr (Finite 0)"
proof -
  have h: "lower_index (vsize [5]) 1 10 = upper_index (vsize [5]) 10"
    by (simp add: one_sample_indices)
  show ?thesis
    using h empty_window_gives_zero [of "[5]" 1 10] by simp
qed

lemma dround_eval:
  assumes "2 powi e \<le> x" "x < 2 powi (e + 1)" "- 1022 \<le> e"
  shows "dround x = of_int (round_half_even (x / 2 powi (e - 52))) * 2 powi (e - 52)"
proof -
  have "(0::real) < 2 powi e" by simp
  with assms(1) have "0 < x" by linarith
  moreover have "binade x = e" using assms by (rule binade_eqI)
  ultimately show ?thesis by (simp add: dround_def round_mag_def)
qed

lemma dround_numeral_half [simp]:
  "(numeral n :: int) < 2 ^ 53 \<Longrightarrow> dround (numeral n / 2) = numeral n / 2"
  using dround_dyadic [of "numeral n" 1] by simp

lemma d18_4_nearest: "dround (184 / 10) = d18_4"
  using dround_eval [of 4 "184 / 10"]
  by (simp add: d18_4_def round_half_even_def)

lemma d0_1_nearest: "dround (1 / 10) = d0_1"
  using dround_eval [of "- 4" "1 / 10"]
  by (simp add: d0_1_def round_half_even_def)

lemma d18_4_double: "dround d18_4 = d18_4"
  using dround_dyadic [of 2589569785738035 47] by (simp add: d18_4_def)


lemma product_125: "dround (125 * d18_4) = 2300"
  using dround_eval [of 11 "125 * d18_4"]
  by (simp add: d18_4_def round_half_even_def)

lemma product_375: "dround (375 * d18_4) = 7586630231654399 / 2 ^ 40"
  using dround_eval [of 12 "375 * d18_4"]
  by (simp add: d18_4_def round_half_even_def)

lemma quotient_375:
  "dround (7586630231654399 / 109951162777600) = 4855443348258815 / 2 ^ 46"
  using dround_eval [of 6 "7586630231654399 / 109951162777600"]
  by (simp add: round_half_even_def)




subsection \<open>The two scenarios with a collapsed window\<close>

lemma single_sample_result: "snd (estimator [x] 1 10) = Inr (Finite 0)"
  by (rule empty_window_result) (simp add: one_sample_indices)

lemma five_samples_result: "snd (estimator [x1, x2, x3, x4, x5] 1 5) = Inr (Finite 0)"
  by (rule empty_window_result) (simp add: five_samples_indices)

text \<open>
  Claim C2 says that with the window collapsed to index 0 the estimator returns the first
  sorted sample. It returns 0 in both scenarios: the loop runs over the empty range
  \<open>[0, 0)\<close>, so the first sample is never read.
\<close>

theorem collapsed_window_first_sample_counterexample:
  "snd (estimator [5] 1 10) = Inr (Finite 0) \<and> [5 :: real] ! 0 \<noteq> 0
   \<and> snd (estimator [10, 20, 30, 40, 50] 1 5) = Inr (Finite 0) \<and> (10 :: real) \<noteq> 0"
  by (simp add: single_sample_result five_samples_result)

text \<open>
  Claim C2 as amended. Whenever the window collapses to index 0 (both \<open>lower_index\<close> and
  \<open>upper_index\<close> are 0), \<open>sample_size\<close> is forced to 1, the loop adds nothing and the
  result is 0. So it is with one sample \<open>x\<close> and the band \<open>(1, 10)\<close>, whatever \<open>x\<close> is, and
  with the samples \<open>[10, 20, 30, 40, 50]\<close> and the band \<open>(1, 5)\<close>.
\<close>

theorem collapsed_window_result:
  "(\<forall>m l u. lower_index (vsize m) l u = 0 \<and> upper_index (vsize m) u = 0
      \<longrightarrow> sample_size (vsize m) l u = 1 \<and> snd (estimator m l u) = Inr (Finite 0))
   \<and> (\<forall>x. lower_index (vsize [x]) 1 10 = 0 \<and> upper_index (vsize [x]) 10 = 0
          \<and> snd (estimator [x] 1 10) = Inr (Finite 0))
   \<and> lower_index (vsize [10, 20, 30, 40, 50]) 1 5 = 0
   \<and> upper_index (vsize [10, 20, 30, 40, 50]) 5 = 0
   \<and> snd (estimator [10, 20, 30, 40, 50] 1 5) = Inr (Finite 0)"
proof (intro conjI allI impI)
  fix m l u
  assume h: "lower_index (vsize m) l u = 0 \<and> upper_index (vsize m) u = 0"
  then show "sample_size (vsize m) l u = 1"
    by (simp add: sample_size_def force_size_def)
  from h show "snd (estimator m l u) = Inr (Finite 0)"
    by (intro empty_window_result) simp
qed (simp_all add: one_sample_indices five_samples_indices single_sample_result
    five_samples_result)

theorem collapsed_window_result_witness:
  "lower_index (vsize [5]) 1 10 = 0 \<and> upper_index (vsize [5]) 10 = 0
   \<and> sample_size (vsize [5]) 1 10 = 1 \<and> snd (estimator [5] 1 10) = Inr (Finite 0)"
proof -
  have h: "lower_index (vsize [5]) 1 10 = 0 \<and> upper_index (vsize [5]) 10 = 0"
    by (simp add: one_sample_indices)
  from collapsed_window_result
  have "lower_index (vsize [5]) 1 10 = 0 \<and> upper_index (vsize [5]) 10 = 0
      \<longrightarrow> sample_size (vsize [5]) 1 10 = 1 \<and> snd (estimator [5] 1 10) = Inr (Finite 0)"
    by blast
  with h show ?thesis by simp
qed

subsection \<open>The floor of the exact quotient\<close>

lemma raw_index_125: "raw_index 125 d18_4 = 23"
  by (simp add: raw_index_def to_size_t_def index_value_def product_125)

lemma exact_floor_125: "nat \<lfloor>125 * d18_4 / 100\<rfloor> = 22"
  by (simp add: d18_4_def)

lemma raw_index_375: "raw_index 375 d18_4 = 68"
  by (simp add: raw_index_def to_size_t_def index_value_def product_375 quotient_375)

lemma exact_floor_375: "nat \<lfloor>375 * (184 / 10) / 100 :: real\<rfloor> = 69"
  by simp

text \<open>
  Claim C5 says the estimator computes \<open>floor(N * lowerPercentile / 100)\<close>. Lines 125 and
  126 compute the product and the quotient on doubles, each rounded, before the cast. The
  percentile 18.4 is held as the nearest double, a little below 18.4. With \<open>N = 375\<close> the
  index is 68, where \<open>floor(375 * 18.4 / 100)\<close> is 69; with \<open>N = 125\<close> the product rounds up
  to 2300 and the index is 23, where the floor of the exact quotient for the double held
  is 22.
\<close>

theorem exact_floor_counterexample:
  "dround (184 / 10) = d18_4
   \<and> raw_index 375 d18_4 = 68 \<and> nat \<lfloor>375 * (184 / 10) / 100 :: real\<rfloor> = 69
   \<and> raw_index 125 d18_4 = 23 \<and> nat \<lfloor>125 * d18_4 / 100\<rfloor> = 22"
  by (intro conjI d18_4_nearest raw_index_125 exact_floor_125 raw_index_375 exact_floor_375)

text \<open>
  Claim C5 as amended. On a vector of \<open>N \<ge> 1\<close> samples (\<open>N\<close> below \<open>2^63\<close>, as the
  iteration count is a \<open>long\<close>) and a band with \<open>0 \<le> lower < upper \<le> 100\<close> the estimator
  returns what the seven steps of the specification compute when their arithmetic is
  carried out on doubles, each operation rounded to the nearest double
  (\<open>spec_estimator\<close>: sort ascending, the two indices as the floor of the rounded quotient
  of the rounded product, the clamp of \<open>upperIndex\<close> to \<open>N - 1\<close>, the adjustment of
  \<open>lowerIndex\<close>, the sum from left to right over \<open>[lowerIndex, upperIndex)\<close>, the division
  by \<open>sampleSize\<close> forced to at least 1); on \<open>[1, ..., 10]\<close> with lower 10 and upper 90
  the result is 5.5.
\<close>

theorem estimator_follows_spec:
  "(\<forall>m l u. 1 \<le> length m \<and> length m < 2 ^ 63 \<and> 0 \<le> l \<and> l < u \<and> u \<le> 100
       \<longrightarrow> estimator m l u = (sort m, Inr (spec_estimator m l u)))
   \<and> snd (estimator [1, 2, 3, 4, 5, 6, 7, 8, 9, 10] 10 90) = Inr (Finite 5.5)"
proof (intro conjI allI impI)
  fix m :: "real list" and l u :: real
  assume h: "1 \<le> length m \<and> length m < 2 ^ 63 \<and> 0 \<le> l \<and> l < u \<and> u \<le> 100"
  then have "m \<noteq> []" by auto
  with h show "estimator m l u = (sort m, Inr (spec_estimator m l u))"
    by (intro estimator_spec) simp_all
next
  have "estimator [1, 2, 3, 4, 5, 6, 7, 8, 9, 10] 10 90
      = (sort [1, 2, 3, 4, 5, 6, 7, 8, 9, 10],
         Inr (spec_estimator [1, 2, 3, 4, 5, 6, 7, 8, 9, 10] 10 90))"
    by (intro estimator_spec) simp_all
  moreover have "spec_estimator [1, 2, 3, 4, 5, 6, 7, 8, 9, 10] 10 90 = Finite 5.5"
    by (simp add: spec_estimator_def spec_sampleSize_def spec_lowerIndex_def
        spec_upperIndex_def spec_floor_index_def upt_rec to_double_def)
  ultimately show "snd (estimator [1, 2, 3, 4, 5, 6, 7, 8, 9, 10] 10 90) = Inr (Finite 5.5)"
    by simp
qed

theorem estimator_follows_spec_witness:
  "1 \<le> length [1, 2, 3, 4 :: real] \<and> length [1, 2, 3, 4 :: real] < 2 ^ 63
   \<and> (0::real) \<le> 25 \<and> (25::real) < 100 \<and> (100::real) \<le> 100
   \<and> raw_index (vsize [1, 2, 3, 4]) 100 = 4 \<and> upper_index (vsize [1, 2, 3, 4]) 100 = 3
   \<and> estimator [1, 2, 3, 4] 25 100 = ([1, 2, 3, 4], Inr (spec_estimator [1, 2, 3, 4] 25 100))
   \<and> spec_estimator [1, 2, 3, 4] 25 100 = Finite (5 / 2)"
  using estimator_follows_spec
  by (simp add: spec_estimator_def spec_sampleSize_def spec_lowerIndex_def
        spec_upperIndex_def spec_floor_index_def upt_rec to_double_def window_defs)

subsection \<open>The mean of a window\<close>















subsection \<open>Warmup and collection\<close>

lemma warmup_done: "\<not> i < 50 \<Longrightarrow> warmup e i w = w"
  by (subst warmup.simps) simp

lemma warmup_step: "i < 50 \<Longrightarrow> warmup e i w = warmup e (i + 1) (compute e w)"
  by (subst warmup.simps) simp

lemma warmup_state:
  "i \<le> 50 \<Longrightarrow>
   trace (warmup e i w) = trace w @ replicate (nat (50 - i)) Compute
   \<and> dsp (warmup e i w) = (dsp_compute e ^^ nat (50 - i)) (dsp w)"
proof (induction "nat (50 - i)" arbitrary: i w)
  case 0
  then show ?case by (simp add: warmup_done)
next
  case (Suc n)
  then have lt: "i < 50" and n: "n = nat (50 - (i + 1))" and le: "i + 1 \<le> 50"
    by simp_all
  note ih = Suc.hyps(1) [OF n le, of "compute e w", folded n]
  have "trace (compute e w) = trace w @ [Compute]"
    and "dsp (compute e w) = dsp_compute e (dsp w)"
    by (simp_all add: compute_def)
  then show ?case
    unfolding Suc.hyps(2) [symmetric] warmup_step [OF lt]
    using ih by (simp add: funpow_swap1)
qed

lemma collect_done: "\<not> i < N \<Longrightarrow> collect e N i (w, ms) = (w, ms)"
  by (subst collect.simps) simp

lemma collect_step:
  "i < N \<Longrightarrow>
   collect e N i (w, ms) =
     collect e N (i + 1)
       (snd (now e (compute e (snd (now e w)))),
        ms @ [to_seconds e (fst (now e (compute e (snd (now e w)))) - fst (now e w))])"
  by (subst collect.simps) (simp add: split_beta Let_def)

lemma collect_state:
  "i \<le> N \<Longrightarrow>
   trace (fst (collect e N i (w, ms)))
     = trace w @ concat (replicate (nat (N - i)) [Now, Compute, Now])
   \<and> dsp (fst (collect e N i (w, ms))) = (dsp_compute e ^^ nat (N - i)) (dsp w)
   \<and> snd (collect e N i (w, ms))
     = ms @ map (\<lambda>k. to_seconds e (clock_reading e (clock_reads w + 2 * k + 1)
                                    - clock_reading e (clock_reads w + 2 * k)))
              [0 ..< nat (N - i)]"
proof (induction "nat (N - i)" arbitrary: i w ms)
  case 0
  then show ?case by (simp add: collect_done)
next
  case (Suc n)
  define w3 where "w3 = snd (now e (compute e (snd (now e w))))"
  define d where "d = to_seconds e (clock_reading e (clock_reads w + 1)
                                    - clock_reading e (clock_reads w))"
  from Suc have lt: "i < N" and n: "n = nat (N - (i + 1))" and le: "i + 1 \<le> N"
    by simp_all
  have tr: "trace w3 = trace w @ [Now, Compute, Now]"
    and ds: "dsp w3 = dsp_compute e (dsp w)"
    and cr: "clock_reads w3 = clock_reads w + 2"
    by (simp_all add: w3_def now_def compute_def clock_reads_def)
  have "to_seconds e (fst (now e (compute e (snd (now e w)))) - fst (now e w)) = d"
    by (simp add: now_def compute_def clock_reads_def d_def)
  then have step: "collect e N i (w, ms) = collect e N (i + 1) (w3, ms @ [d])"
    by (simp add: collect_step [OF lt] w3_def)
  note ih = Suc.hyps(1) [OF n le, of w3 "ms @ [d]", folded n]
  show ?case
    unfolding step Suc.hyps(2) [symmetric]
    using ih by (simp add: tr ds cr d_def funpow_swap1 map_upt_Suc del: upt_Suc)
qed

lemma clock_reads_warmup: "clock_reads (warmup e 0 w) = clock_reads w"
  using warmup_state [of 0 e w] by (simp add: clock_reads_def)

lemma invocations_append:
  "trace w' = trace w @ evs \<Longrightarrow>
   invocations w' = invocations w + length (filter (\<lambda>ev. ev = Compute) evs)"
  by (simp add: invocations_def)

lemma count_rounds:
  "length (filter (\<lambda>ev. ev = Compute) (concat (replicate n [Now, Compute, Now]))) = n"
  by (induction n) simp_all

lemma sampler_run:
  assumes "1 \<le> N" "reserve e N = None"
  shows "\<exists>w' measurements.
      sampler e N w = (w', Inr measurements)
    \<and> trace (warmup e 0 w) = trace w @ replicate 50 Compute
    \<and> dsp (warmup e 0 w) = (dsp_compute e ^^ 50) (dsp w)
    \<and> trace w' = trace (warmup e 0 w) @ concat (replicate (nat N) [Now, Compute, Now])
    \<and> dsp w' = (dsp_compute e ^^ (50 + nat N)) (dsp w)
    \<and> invocations w' = invocations w + 50 + nat N
    \<and> length measurements = nat N
    \<and> measurements
        = map (\<lambda>k. to_seconds e (clock_reading e (clock_reads w + 2 * k + 1)
                                 - clock_reading e (clock_reads w + 2 * k))) [0 ..< nat N]"
proof -
  define w1 where "w1 = warmup e 0 w"
  define w2 where "w2 = fst (collect e N 0 (w1, []))"
  define ms where "ms = snd (collect e N 0 (w1, []))"
  have wt: "trace w1 = trace w @ replicate 50 Compute"
    and wd: "dsp w1 = (dsp_compute e ^^ 50) (dsp w)"
    using warmup_state [of 0 e w] by (simp_all add: w1_def)
  have cr: "clock_reads w1 = clock_reads w"
    by (simp add: w1_def clock_reads_warmup)
  have c: "trace w2 = trace w1 @ concat (replicate (nat N) [Now, Compute, Now])"
    and cd: "dsp w2 = (dsp_compute e ^^ nat N) (dsp w1)"
    and m: "ms = map (\<lambda>k. to_seconds e (clock_reading e (clock_reads w + 2 * k + 1)
                  - clock_reading e (clock_reads w + 2 * k))) [0 ..< nat N]"
    using collect_state [of 0 N e w1 "[]"] assms(1) by (simp_all add: w2_def ms_def cr)
  have d: "dsp w2 = (dsp_compute e ^^ (50 + nat N)) (dsp w)"
    by (simp add: cd wd funpow_add add.commute)
  have "invocations w1 = invocations w + 50"
    using invocations_append [OF wt] by simp
  moreover have "invocations w2 = invocations w1 + nat N"
    using invocations_append [OF c] by (simp add: count_rounds)
  ultimately have inv: "invocations w2 = invocations w + 50 + nat N" by simp
  have "sampler e N w = (w2, Inr ms)"
    using assms(2) by (simp add: sampler_def Let_def split_beta w1_def w2_def ms_def)
  then show ?thesis
    using wt wd c d inv m by (simp add: w1_def)
qed

text \<open>
  Claim C6 says that for every \<open>N \<ge> 1\<close> the sampler produces \<open>N\<close> samples. Line 111
  reserves the storage first: with \<open>N = 2^60\<close>, one more than the \<open>max_size()\<close> of the
  vector, \<open>reserve\<close> throws after the 50 warmup calls and no sample is taken.
\<close>

theorem sampler_protocol_counterexample:
  "(1 :: int) \<le> 2 ^ 60
   \<and> (\<forall>sd. sampler (plain_env sd) (2 ^ 60) \<lparr>dsp = (), trace = []\<rparr>
          = (warmup (plain_env sd) 0 \<lparr>dsp = (), trace = []\<rparr>, Inl Length_error))"
  by (simp add: sampler_def reserve_def plain_env_def word_less_nat_alt)

text \<open>
  Claim C6 as amended. For every \<open>N \<ge> 1\<close> for which \<open>measurements.reserve(N)\<close> succeeds
  (\<open>N\<close> is at most \<open>max_size()\<close> and the allocator provides the storage), the sampler first
  calls the kernel 50 times without reading the clock, then \<open>N\<close> more times, each call
  between two clock readings, so that the kernel has been stepped \<open>50 + N\<close> times, and it
  returns the \<open>N\<close> differences of these readings, converted to seconds, in the order of
  the calls. The count 50 is a constant of the source, not an argument.
\<close>

theorem sampler_protocol:
  assumes "1 \<le> N" "reserve e N = None"
  shows "\<exists>w' measurements.
      sampler e N w = (w', Inr measurements)
    \<and> trace (warmup e 0 w) = trace w @ replicate 50 Compute
    \<and> dsp (warmup e 0 w) = (dsp_compute e ^^ 50) (dsp w)
    \<and> trace w' = trace (warmup e 0 w) @ concat (replicate (nat N) [Now, Compute, Now])
    \<and> dsp w' = (dsp_compute e ^^ (50 + nat N)) (dsp w)
    \<and> invocations w' = invocations w + 50 + nat N
    \<and> length measurements = nat N
    \<and> measurements
        = map (\<lambda>k. to_seconds e (clock_reading e (clock_reads w + 2 * k + 1)
                                 - clock_reading e (clock_reads w + 2 * k))) [0 ..< nat N]"
  using assms by (rule sampler_run)

theorem sampler_protocol_witness:
  "(1::int) \<le> 2
   \<and> (\<forall>sd. reserve (plain_env sd) 2 = None
     \<and> (\<exists>w' measurements.
        sampler (plain_env sd) 2 \<lparr>dsp = (), trace = []\<rparr> = (w', Inr measurements)
      \<and> trace w' = replicate 50 Compute @ [Now, Compute, Now, Now, Compute, Now]
      \<and> invocations w' = 52
      \<and> measurements = [to_seconds (plain_env sd) 1000, to_seconds (plain_env sd) 1000]))"
proof (intro conjI allI)
  fix sd
  show r: "reserve (plain_env sd) 2 = None"
    by (simp add: reserve_def plain_env_def word_less_nat_alt)
  show "\<exists>w' measurements.
        sampler (plain_env sd) 2 \<lparr>dsp = (), trace = []\<rparr> = (w', Inr measurements)
      \<and> trace w' = replicate 50 Compute @ [Now, Compute, Now, Now, Compute, Now]
      \<and> invocations w' = 52
      \<and> measurements = [to_seconds (plain_env sd) 1000, to_seconds (plain_env sd) 1000]"
    using sampler_protocol [of 2 "plain_env sd" "\<lparr>dsp = (), trace = []\<rparr>", OF _ r]
    by (auto simp add: invocations_def clock_reads_def numeral_2_eq_2 upt_rec)
      (simp_all add: plain_env_def)
qed simp

subsection \<open>Runs of main\<close>

lemma reserve_zero: "reserve e 0 = None"
  by (simp add: reserve_def)

lemma sampler_zero: "sampler e 0 w = (warmup e 0 w, Inr [])"
  by (simp add: sampler_def collect_done reserve_zero)

lemma invocations_warmup: "invocations (warmup e 0 \<lparr>dsp = k, trace = []\<rparr>) = 50"
  using warmup_state [of 0 e "\<lparr>dsp = k, trace = []\<rparr>"] by (simp add: invocations_def)

lemma upper_index_empty: "upper_index (vsize []) u = 2 ^ 64 - 1"
  by (simp add: upper_index_def clamp_upper_def raw_index_def to_size_t_def index_value_def
      vsize_def)

lemma estimator_empty: "estimator [] l u = ([], Inl OutOfBounds)"
  by (simp add: estimator_def window_defs sum_loop.simps [of "[]" 0] word_gt_0)

lemma benchmark_zero:
  "outcome (benchmark e argv0 0 (Finite u) (Finite l)) = Undefined_behaviour OutOfBounds
   \<and> stderr (benchmark e argv0 0 (Finite u) (Finite l)) = []
   \<and> stdout (benchmark e argv0 0 (Finite u) (Finite l)) = []
   \<and> kernel_calls (benchmark e argv0 0 (Finite u) (Finite l)) = 50"
  by (simp add: benchmark_def sampler_zero estimate_def estimator_empty kernel_calls_def
      invocations_warmup)

lemma main_runs_benchmark:
  assumes "length args \<le> 3" "parse_iterations e args = Inr N" "parse_upper e args = Inr u"
    "parse_lower e args = Inr l" "\<not> dle u l"
  shows "main e argv0 args = benchmark e argv0 N u l"
  using assms by (simp add: main_def)

lemma strtol_zero: "strtol_base10 ''0'' = \<lparr>sl_val = 0, sl_endptr = 1, sl_errno = 0\<rparr>"
  by (simp add: strtol_base10_def take_sign_def isspace_def isdigit_def digits_value_def
      LONG_MAX_def LONG_MIN_def)

lemma parse_zero:
  "parse_iterations (plain_env sd) [''0''] = Inr 0
   \<and> parse_upper (plain_env sd) [''0''] = Inr (Finite 10)
   \<and> parse_lower (plain_env sd) [''0''] = Inr (Finite 1)"
  by (simp add: parse_iterations_def parse_upper_def parse_lower_def plain_env_def strtol_zero
      ERANGE_def)

text \<open>
  Claim C9. When the iteration count parses to 0 and the percentiles pass their checks,
  the sampler hands over an empty vector, the clamp of line 129 computes \<open>0 - 1\<close> in
  \<open>size_t\<close>, which is \<open>2^64 - 1\<close>, and the summation loop reads outside the vector: the
  run of \<open>main\<close> ends in undefined behaviour.
\<close>

theorem zero_iterations_out_of_bounds:
  assumes "length args \<le> 3" "parse_iterations e args = Inr 0"
    "parse_upper e args = Inr (Finite u)" "parse_lower e args = Inr (Finite l)" "l < u"
  shows "snd (sampler e 0 w) = Inr []
       \<and> upper_index (vsize []) u = 2 ^ 64 - 1
       \<and> snd (estimator [] l u) = Inl OutOfBounds
       \<and> outcome (main e argv0 args) = Undefined_behaviour OutOfBounds"
proof -
  have "\<not> dle (Finite u) (Finite l)" using assms(5) by (simp add: dle_def)
  then have "main e argv0 args = benchmark e argv0 0 (Finite u) (Finite l)"
    using assms by (intro main_runs_benchmark)
  then show ?thesis
    by (simp add: benchmark_zero sampler_zero upper_index_empty estimator_empty)
qed

theorem zero_iterations_out_of_bounds_witness:
  "\<forall>sd. length [''0''] \<le> 3 \<and> parse_iterations (plain_env sd) [''0''] = Inr 0
   \<and> parse_upper (plain_env sd) [''0''] = Inr (Finite 10)
   \<and> parse_lower (plain_env sd) [''0''] = Inr (Finite 1)
   \<and> (1::real) < 10
   \<and> upper_index (vsize []) 10 = 2 ^ 64 - 1
   \<and> snd (estimator [] 1 10) = Inl OutOfBounds
   \<and> outcome (main (plain_env sd) ''prog'' [''0'']) = Undefined_behaviour OutOfBounds"
proof
  fix sd
  show "length [''0''] \<le> 3 \<and> parse_iterations (plain_env sd) [''0''] = Inr 0
   \<and> parse_upper (plain_env sd) [''0''] = Inr (Finite 10)
   \<and> parse_lower (plain_env sd) [''0''] = Inr (Finite 1)
   \<and> (1::real) < 10
   \<and> upper_index (vsize []) 10 = 2 ^ 64 - 1
   \<and> snd (estimator [] 1 10) = Inl OutOfBounds
   \<and> outcome (main (plain_env sd) ''prog'' [''0'']) = Undefined_behaviour OutOfBounds"
    using zero_iterations_out_of_bounds [of "[''0'']" "plain_env sd" 10 1]
    by (simp add: parse_zero)
qed

text \<open>
  Claim C4 says that a non-positive iteration count is rejected with an error message and
  a non-zero status before any kernel call. Lines 18 to 34 check the conversion only: on
  the arguments \<open>prog 0\<close> nothing is written to the error stream, the kernel is called
  50 times and the estimator reads outside the empty vector.
\<close>

theorem zero_iterations_not_rejected:
  "outcome (main (plain_env sd) ''prog'' [''0'']) = Undefined_behaviour OutOfBounds
   \<and> stderr (main (plain_env sd) ''prog'' [''0'']) = []
   \<and> kernel_calls (main (plain_env sd) ''prog'' [''0'']) = 50"
proof -
  have "main (plain_env sd) ''prog'' [''0''] = benchmark (plain_env sd) ''prog'' 0 (Finite 10) (Finite 1)"
    by (rule main_runs_benchmark) (simp_all add: parse_zero dle_def)
  then show ?thesis by (simp add: benchmark_zero)
qed

text \<open>
  The checks \<open>main\<close> does make. The band of \<open>prog 1000 5 10\<close> is rejected. The kernel is
  only constructed once each percentile has passed its range check and line 72; every
  other run returns 1 with a line on the error stream. A NaN passes all three checks, as
  every comparison with it is false, and reaches the kernel.
\<close>

lemma strtol_1000: "strtol_base10 ''1000'' = \<lparr>sl_val = 1000, sl_endptr = 4, sl_errno = 0\<rparr>"
  by (simp add: strtol_base10_def take_sign_def isspace_def isdigit_def digits_value_def
      LONG_MAX_def LONG_MIN_def)

lemma reversed_band_rejected:
  assumes "sd ''5'' = \<lparr>sd_val = Finite 5, sd_endptr = 1, sd_errno = 0\<rparr>"
    and "sd ''10'' = \<lparr>sd_val = Finite 10, sd_endptr = 2, sd_errno = 0\<rparr>"
  shows "main (plain_env sd) ''prog'' [''1000'', ''5'', ''10'']
     = reject Lower_percentile_must_be_less_than_upper_percentile"
  using assms
  by (simp add: main_def parse_iterations_def parse_upper_def parse_lower_def plain_env_def
      strtol_1000 ERANGE_def LONG_MAX_def LONG_MIN_def dle_def)

lemma kernel_calls_reject: "kernel_calls (reject msg) = 0 \<and> outcome (reject msg) = Exit 1
    \<and> stderr (reject msg) = [msg]"
  by (simp add: reject_def kernel_calls_def)

lemma parse_upper_range:
  "parse_upper e args = Inr d \<Longrightarrow> d = NaN \<or> (\<exists>u. d = Finite u \<and> 0 < u \<and> u \<le> 100)"
  by (cases d) (auto simp: parse_upper_def Let_def dle_def split: if_splits)

lemma parse_lower_range:
  "parse_lower e args = Inr d \<Longrightarrow> d = NaN \<or> (\<exists>l. d = Finite l \<and> 0 \<le> l \<and> l < 100)"
  by (cases d) (auto simp: parse_lower_def Let_def dle_def split: if_splits)

lemma main_reaches_kernel:
  assumes "final (main e argv0 args) \<noteq> None"
  shows "\<exists>N u l. main e argv0 args = benchmark e argv0 N u l
      \<and> parse_iterations e args = Inr N \<and> parse_upper e args = Inr u
      \<and> parse_lower e args = Inr l \<and> \<not> dle u l"
  using assms by (auto simp: main_def reject_def split: if_splits sum.splits)

lemma percentiles_checked_before_kernel:
  assumes "final (main e argv0 args) \<noteq> None"
  shows "\<exists>N du dl. main e argv0 args = benchmark e argv0 N du dl
      \<and> parse_iterations e args = Inr N
      \<and> (du = NaN \<or> dl = NaN
         \<or> (\<exists>u l. du = Finite u \<and> dl = Finite l \<and> 0 < u \<and> u \<le> 100 \<and> 0 \<le> l \<and> l < u))"
proof -
  from main_reaches_kernel [OF assms] obtain N du dl where
    m: "main e argv0 args = benchmark e argv0 N du dl" "parse_iterations e args = Inr N"
    and u: "parse_upper e args = Inr du" and l: "parse_lower e args = Inr dl"
    and o: "\<not> dle du dl"
    by blast
  from parse_upper_range [OF u] parse_lower_range [OF l] o
  have "du = NaN \<or> dl = NaN
      \<or> (\<exists>u l. du = Finite u \<and> dl = Finite l \<and> 0 < u \<and> u \<le> 100 \<and> 0 \<le> l \<and> l < u)"
    by (auto simp: dle_def)
  with m show ?thesis by blast
qed

lemma main_rejects_or_runs:
  "final (main e argv0 args) = None \<Longrightarrow>
   outcome (main e argv0 args) = Exit 1 \<and> stderr (main e argv0 args) \<noteq> []
   \<and> kernel_calls (main e argv0 args) = 0"
  by (auto simp: main_def reject_def kernel_calls_def benchmark_def Let_def
      split: if_splits sum.splits prod.splits)

lemma nan_percentile_not_rejected:
  assumes "length args = 2" "parse_iterations e args = Inr N" "0 \<le> N" "reserve e N = None"
    and "strtod e (args ! 1) = \<lparr>sd_val = NaN, sd_endptr = n, sd_errno = 0\<rparr>" "0 < n"
  shows "outcome (main e argv0 args) = Undefined_behaviour BadCast
       \<and> stderr (main e argv0 args) = []
       \<and> kernel_calls (main e argv0 args) = 50 + nat N"
proof -
  have u: "parse_upper e args = Inr NaN"
    using assms(1,5,6) by (simp add: parse_upper_def dle_def)
  have l: "parse_lower e args = Inr (Finite 1)"
    using assms(1) by (simp add: parse_lower_def)
  have m: "main e argv0 args = benchmark e argv0 N NaN (Finite 1)"
    using assms(1,2) u l by (intro main_runs_benchmark) (simp_all add: dle_def)
  define w where "w = \<lparr>dsp = dsp_init e 44100 (dsp_new e), trace = []\<rparr>"
  have "invocations w = 0" by (simp add: w_def invocations_def)
  moreover have "\<exists>w' ms. sampler e N w = (w', Inr ms) \<and> invocations w' = invocations w + 50 + nat N"
  proof (cases "N = 0")
    case True
    then show ?thesis
      using invocations_warmup [of e "dsp w"] by (simp add: sampler_zero w_def invocations_def)
  next
    case False
    with assms(3) have "1 \<le> N" by simp
    from sampler_run [OF this assms(4), of w] show ?thesis by blast
  qed
  ultimately obtain w' ms where "sampler e N w = (w', Inr ms)" "invocations w' = 50 + nat N"
    by auto
  then show ?thesis
    unfolding m by (simp add: benchmark_def estimate_def kernel_calls_def w_def)
qed

end
